theory Spec2Isabelle
  imports Main "HOL-Library.Sublist"
begin

section \<open>Text primitives of the host language\<close>

text \<open>
  The handlers of \<^verbatim>\<open>handlers/faqs.ts\<close> work on JavaScript strings. A string is modelled
  as a \<^typ>\<open>string\<close> whose characters are the code units \<open>0 \<dots> 255\<close> (Latin-1), so
  \<^const>\<open>length\<close> is the \<^verbatim>\<open>.length\<close> of the source. Texts with code units above 255
  are outside the model.
\<close>

definition code_unit :: "char \<Rightarrow> nat" where
  "code_unit c = of_char c"

text \<open>\<^verbatim>\<open>String.prototype.toLowerCase\<close>: \<open>A\<dots>Z\<close> and the Latin-1 capitals move up by 32.\<close>

definition lower_char :: "char \<Rightarrow> char" where
  "lower_char c =
     (let n = code_unit c in
      if (65 \<le> n \<and> n \<le> 90) \<or> (192 \<le> n \<and> n \<le> 222 \<and> n \<noteq> 215)
      then char_of (n + 32) else c)"

definition toLowerCase :: "string \<Rightarrow> string" where
  "toLowerCase s = map lower_char s"

text \<open>The regular-expression class \<^verbatim>\<open>\w\<close> (no flags): \<open>[A-Za-z0-9_]\<close>.\<close>

definition is_word_char :: "char \<Rightarrow> bool" where
  "is_word_char c =
     (let n = code_unit c in
      (48 \<le> n \<and> n \<le> 57) \<or> (65 \<le> n \<and> n \<le> 90) \<or> n = 95 \<or> (97 \<le> n \<and> n \<le> 122))"

text \<open>The class \<^verbatim>\<open>\s\<close>: tab, line feed, vertical tab, form feed, carriage return, space
  and the no-break space.\<close>

definition is_space_char :: "char \<Rightarrow> bool" where
  "is_space_char c = (let n = code_unit c in (9 \<le> n \<and> n \<le> 13) \<or> n = 32 \<or> n = 160)"

text \<open>
  \<open>runs P cur s\<close> scans \<open>s\<close> from left to right and returns the maximal non-empty runs
  of characters satisfying \<open>P\<close>; \<open>cur\<close> is the run read so far.
\<close>

fun runs :: "(char \<Rightarrow> bool) \<Rightarrow> string \<Rightarrow> string \<Rightarrow> string list" where
  "runs P cur [] = (if cur = [] then [] else [cur])"
| "runs P cur (c # cs) =
     (if P c then runs P (cur @ [c]) cs
      else (if cur = [] then [] else [cur]) @ runs P [] cs)"

text \<open>
  \<^verbatim>\<open>text.match(/\b\w{3,}\b/g) || []\<close>. A match can only start where a run of word
  characters starts (\<^verbatim>\<open>\b\<close>), the greedy \<^verbatim>\<open>\w{3,}\<close> takes the whole run, and inside a run
  no position is a word boundary: the matches are the maximal runs of word characters of
  length at least three, from left to right.
\<close>

definition match_words :: "string \<Rightarrow> string list" where
  "match_words text = filter (\<lambda>w. 3 \<le> length w) (runs is_word_char [] text)"

text \<open>
  \<^verbatim>\<open>[...new Set(words)]\<close>: a \<^verbatim>\<open>Set\<close> keeps its elements in insertion order and
  ignores the insertion of an element it already holds.
\<close>

fun Set_add_all :: "'a list \<Rightarrow> 'a list \<Rightarrow> 'a list" where
  "Set_add_all seen [] = seen"
| "Set_add_all seen (x # xs) =
     (if x \<in> set seen then Set_add_all seen xs else Set_add_all (seen @ [x]) xs)"

text \<open>
  \<^verbatim>\<open>s.split(/\s+/)\<close>: the string is cut at every run of white space. Leading and
  trailing white space leave an empty first or last piece, and the empty string gives
  one empty piece. \<open>cur\<close> is the piece read so far.
\<close>

function split_ws :: "string \<Rightarrow> string \<Rightarrow> string list" where
  "split_ws cur [] = [cur]"
| "split_ws cur (c # cs) =
     (if is_space_char c then cur # split_ws [] (dropWhile is_space_char cs)
      else split_ws (cur @ [c]) cs)"
  by pat_completeness auto
termination
  by (relation "measure (\<lambda>(cur, s). length s)")
     (auto simp: length_dropWhile_le less_Suc_eq_le)

section \<open>Keyword extractor and query tokenizer\<close>

text \<open>The helper \<^verbatim>\<open>generateKeywords(question, answer)\<close> of \<^verbatim>\<open>handlers/faqs.ts\<close>.\<close>

definition generateKeywords :: "string \<Rightarrow> string \<Rightarrow> string list" where
  "generateKeywords question answer =
     (let text = toLowerCase (question @ '' '' @ answer);
          words = match_words text
      in Set_add_all [] words)"

text \<open>The first statement of \<^verbatim>\<open>searchFaqs\<close>:
  \<^verbatim>\<open>input.query.toLowerCase().split(/\s+/).filter(term => term.length > 2)\<close>.\<close>

definition searchTerms :: "string \<Rightarrow> string list" where
  "searchTerms query = filter (\<lambda>term. length term > 2) (split_ws [] (toLowerCase query))"

text \<open>
  The tokenizer in the words of its description: lower-case the query, take the maximal
  runs of characters that are not white space, discard the tokens of length at most two.
\<close>

definition tokenize :: "string \<Rightarrow> string list" where
  "tokenize query =
     filter (\<lambda>t. \<not> length t \<le> 2) (runs (\<lambda>c. \<not> is_space_char c) [] (toLowerCase query))"

section \<open>Data model\<close>

text \<open>The enumeration \<^verbatim>\<open>faqCategorySchema\<close> / \<^verbatim>\<open>faqCategoryEnum\<close>.\<close>

datatype FaqCategory =
  admissions | academic_programs | campus_life | contact_support | general_info

text \<open>Rows of \<^verbatim>\<open>schoolsTable\<close> and \<^verbatim>\<open>faqsTable\<close>; timestamps are milliseconds.\<close>

record School =
  s_id :: int
  s_name :: string
  s_domain :: string
  s_location :: "string option"
  s_contact_email :: "string option"
  s_contact_phone :: "string option"
  s_is_active :: bool
  s_created_at :: int
  s_updated_at :: int

record Faq =
  f_id :: int
  f_school_id :: int
  f_category :: FaqCategory
  f_question :: string
  f_answer :: string
  f_keywords :: "string list"
  f_is_active :: bool
  f_created_by :: int
  f_created_at :: int
  f_updated_at :: int

text \<open>
  The record store: the two tables the FAQ handlers touch, each in the store's row
  order, and the sequence behind the \<^verbatim>\<open>serial\<close> key of \<^verbatim>\<open>faqsTable\<close>. The store is
  taken to be reachable and to accept every text.
\<close>

record db =
  schoolsTable :: "School list"
  faqsTable :: "Faq list"
  faqs_id_seq :: int

record ChatbotQueryInput =
  cq_school_domain :: string
  cq_query :: string
  cq_category :: "FaqCategory option"

record ChatbotResponse =
  faqs :: "Faq list"
  suggested_categories :: "FaqCategory list"
  total_results :: nat

record CreateFaqInput =
  cf_school_id :: int
  cf_category :: FaqCategory
  cf_question :: string
  cf_answer :: string
  cf_keywords :: "string list option"

record UpdateFaqInput =
  uf_id :: int
  uf_category :: "FaqCategory option"
  uf_question :: "string option"
  uf_answer :: "string option"
  uf_keywords :: "string list option"
  uf_is_active :: "bool option"

text \<open>The errors a handler or the router's input parser can raise.\<close>

datatype error =
  SchoolNotFound | FaqNotFound | NoValuesToSet | NoRowReturned | ValidationFailure

section \<open>The store's operators used by the search\<close>

text \<open>
  \<^verbatim>\<open>LIKE\<close>: in a pattern \<^verbatim>\<open>%\<close> stands for any text, \<^verbatim>\<open>_\<close> for any one character, and a
  backslash takes the next character literally. The patterns built by \<^verbatim>\<open>searchFaqs\<close>
  end with \<^verbatim>\<open>%\<close>, so no pattern ends with a lone backslash, which the store would
  refuse; that case is \<open>False\<close> here. \<open>like_match pattern text\<close>.
\<close>

fun like_match :: "string \<Rightarrow> string \<Rightarrow> bool" where
  "like_match [] t = (t = [])"
| "like_match (p # ps) t =
     (if p = CHR ''%'' then
        like_match ps t \<or> (case t of [] \<Rightarrow> False | _ # ts \<Rightarrow> like_match (p # ps) ts)
      else if p = CHR ''_'' then
        (case t of [] \<Rightarrow> False | _ # ts \<Rightarrow> like_match ps ts)
      else if p = CHR 0x5C then
        (case ps of [] \<Rightarrow> False
         | q # qs \<Rightarrow> (case t of [] \<Rightarrow> False | c # ts \<Rightarrow> c = q \<and> like_match qs ts))
      else (case t of [] \<Rightarrow> False | c # ts \<Rightarrow> c = p \<and> like_match ps ts))"

text \<open>\<^verbatim>\<open>text ILIKE pattern\<close>: \<^verbatim>\<open>LIKE\<close> on the case-folded text and pattern.\<close>

definition ilike :: "string \<Rightarrow> string \<Rightarrow> bool" where
  "ilike text pattern = like_match (toLowerCase pattern) (toLowerCase text)"

text \<open>
  \<^verbatim>\<open>keywords::text\<close>: the column is of type \<^verbatim>\<open>json\<close>, whose text is the one the driver
  sent, \<^verbatim>\<open>JSON.stringify(keywords)\<close>.
\<close>

definition hex_digit :: "nat \<Rightarrow> char" where
  "hex_digit n = (if n < 10 then char_of (48 + n) else char_of (87 + n))"

definition json_escape :: "char \<Rightarrow> string" where
  "json_escape c =
     (let n = code_unit c in
      if n = 34 then [CHR 0x5C, CHR 0x22]
      else if n = 92 then [CHR 0x5C, CHR 0x5C]
      else if n = 8 then [CHR 0x5C, CHR ''b'']
      else if n = 12 then [CHR 0x5C, CHR ''f'']
      else if n = 10 then [CHR 0x5C, CHR ''n'']
      else if n = 13 then [CHR 0x5C, CHR ''r'']
      else if n = 9 then [CHR 0x5C, CHR ''t'']
      else if n < 32 then [CHR 0x5C, CHR ''u'', CHR ''0'', CHR ''0'',
                           hex_digit (n div 16), hex_digit (n mod 16)]
      else [c])"

definition json_string :: "string \<Rightarrow> string" where
  "json_string s = [CHR 0x22] @ concat (map json_escape s) @ [CHR 0x22]"

fun join_comma :: "string list \<Rightarrow> string" where
  "join_comma [] = []"
| "join_comma [x] = x"
| "join_comma (x # y # ys) = x @ '','' @ join_comma (y # ys)"

definition JSON_stringify :: "string list \<Rightarrow> string" where
  "JSON_stringify ks = ''['' @ join_comma (map json_string ks) @ '']''"

section \<open>Queries\<close>

text \<open>
  A joined row is a row of \<^verbatim>\<open>faqsTable\<close> with the row of \<^verbatim>\<open>schoolsTable\<close> it refers to:
  \<^verbatim>\<open>.from(faqsTable).innerJoin(schoolsTable, eq(faqsTable.school_id, schoolsTable.id))\<close>.
\<close>

type_synonym joined = "Faq \<times> School"

definition innerJoin :: "db \<Rightarrow> joined list" where
  "innerJoin d =
     [(f, s). f \<leftarrow> faqsTable d, s \<leftarrow> schoolsTable d, f_school_id f = s_id s]"

text \<open>\<^verbatim>\<open>.where(and(...conditions))\<close>.\<close>

definition where_and :: "(joined \<Rightarrow> bool) list \<Rightarrow> joined list \<Rightarrow> joined list" where
  "where_and conditions rows = filter (\<lambda>r. list_all (\<lambda>c. c r) conditions) rows"

text \<open>
  \<^verbatim>\<open>.orderBy(desc(faqsTable.created_at))\<close>. The store leaves the order of rows with equal
  timestamps open; the model keeps them in the order they had.
\<close>

definition orderBy_desc_created_at :: "Faq list \<Rightarrow> Faq list" where
  "orderBy_desc_created_at rows = sort_key (\<lambda>f. - f_created_at f) rows"

text \<open>
  \<^verbatim>\<open>.groupBy(faqsTable.category)\<close> with only the category selected: one row for each
  category that occurs. The store leaves the order of the groups open.
\<close>

definition groupBy_category :: "joined list \<Rightarrow> FaqCategory list" where
  "groupBy_category rows = remdups (map (\<lambda>r. f_category (fst r)) rows)"

text \<open>The three conditions every query of the chatbot starts from.\<close>

definition base_conditions :: "string \<Rightarrow> (joined \<Rightarrow> bool) list" where
  "base_conditions school_domain =
     [\<lambda>r. s_domain (snd r) = school_domain,
      \<lambda>r. f_is_active (fst r),
      \<lambda>r. s_is_active (snd r)]"

text \<open>The SQL fragment built for one search term.\<close>

definition term_condition :: "string \<Rightarrow> joined \<Rightarrow> bool" where
  "term_condition term r =
     (let pattern = ''%'' @ term @ ''%'' in
      ilike (f_question (fst r)) pattern \<or> ilike (f_answer (fst r)) pattern
      \<or> ilike (JSON_stringify (f_keywords (fst r))) pattern)"

text \<open>The list \<^verbatim>\<open>conditions\<close> of \<^verbatim>\<open>searchFaqs\<close> when the query is run.\<close>

definition conditions :: "ChatbotQueryInput \<Rightarrow> (joined \<Rightarrow> bool) list" where
  "conditions input =
     (let terms = searchTerms (cq_query input);
          conds = base_conditions (cq_school_domain input);
          conds = (case cq_category input of
                     Some c \<Rightarrow> conds @ [\<lambda>r. f_category (fst r) = c]
                   | None \<Rightarrow> conds)
      in if length terms > 0 then
           (let searchConditions = map term_condition terms in
            case searchConditions of
              [c] \<Rightarrow> conds @ [c]
            | _ \<Rightarrow> conds @ [\<lambda>r. list_ex (\<lambda>c. c r) searchConditions])
         else conds)"

definition searchFaqs :: "ChatbotQueryInput \<Rightarrow> db \<Rightarrow> ChatbotResponse" where
  "searchFaqs input d =
     (let found = take 20 (orderBy_desc_created_at
                    (map fst (where_and (conditions input) (innerJoin d))));
          categoriesResult =
            groupBy_category
              (where_and (base_conditions (cq_school_domain input)) (innerJoin d))
      in \<lparr>faqs = found,
          suggested_categories = categoriesResult,
          total_results = length found\<rparr>)"

definition getAvailableCategories :: "string \<Rightarrow> db \<Rightarrow> FaqCategory list" where
  "getAvailableCategories schoolDomain d =
     groupBy_category (where_and (base_conditions schoolDomain) (innerJoin d))"

text \<open>\<^verbatim>\<open>getFaqById\<close>: \<^verbatim>\<open>results[0] || null\<close>.\<close>

definition getFaqById :: "int \<Rightarrow> db \<Rightarrow> Faq option" where
  "getFaqById i d =
     (case filter (\<lambda>f. f_id f = i) (faqsTable d) of [] \<Rightarrow> None | r # _ \<Rightarrow> Some r)"

section \<open>Writes\<close>

text \<open>
  \<^verbatim>\<open>createFaq(input, createdBy)\<close>. \<open>now\<close> is the store's clock at the insert, which
  fills \<^verbatim>\<open>created_at\<close> and \<^verbatim>\<open>updated_at\<close>. The result is what the handler returns or
  throws, with the store it leaves.
\<close>

definition createFaq :: "CreateFaqInput \<Rightarrow> int \<Rightarrow> int \<Rightarrow> db \<Rightarrow> (error + Faq) \<times> db" where
  "createFaq input createdBy now d =
     (let school = filter (\<lambda>s. s_id s = cf_school_id input) (schoolsTable d) in
      if length school = 0 then (Inl SchoolNotFound, d)
      else
        let keywords =
              (case cf_keywords input of
                 Some ks \<Rightarrow>
                   if length ks > 0 then ks
                   else generateKeywords (cf_question input) (cf_answer input)
               | None \<Rightarrow> generateKeywords (cf_question input) (cf_answer input));
            row = \<lparr>f_id = faqs_id_seq d,
                   f_school_id = cf_school_id input,
                   f_category = cf_category input,
                   f_question = cf_question input,
                   f_answer = cf_answer input,
                   f_keywords = keywords,
                   f_is_active = True,
                   f_created_by = createdBy,
                   f_created_at = now,
                   f_updated_at = now\<rparr>
        in (Inr row, d\<lparr>faqsTable := faqsTable d @ [row], faqs_id_seq := faqs_id_seq d + 1\<rparr>))"

text \<open>The object \<^verbatim>\<open>updateValues\<close>: a column is set when its field is present.\<close>

record updateValues =
  uv_category :: "FaqCategory option"
  uv_question :: "string option"
  uv_answer :: "string option"
  uv_is_active :: "bool option"
  uv_keywords :: "string list option"

definition set_values :: "updateValues \<Rightarrow> Faq \<Rightarrow> Faq" where
  "set_values v r =
     r\<lparr>f_category := (case uv_category v of Some c \<Rightarrow> c | None \<Rightarrow> f_category r),
       f_question := (case uv_question v of Some q \<Rightarrow> q | None \<Rightarrow> f_question r),
       f_answer := (case uv_answer v of Some a \<Rightarrow> a | None \<Rightarrow> f_answer r),
       f_is_active := (case uv_is_active v of Some b \<Rightarrow> b | None \<Rightarrow> f_is_active r),
       f_keywords := (case uv_keywords v of Some ks \<Rightarrow> ks | None \<Rightarrow> f_keywords r)\<rparr>"

definition no_values :: "updateValues \<Rightarrow> bool" where
  "no_values v \<longleftrightarrow>
     uv_category v = None \<and> uv_question v = None \<and> uv_answer v = None
     \<and> uv_is_active v = None \<and> uv_keywords v = None"

text \<open>\<^verbatim>\<open>a || b\<close> on strings: the empty string is falsy.\<close>

definition or_else :: "string option \<Rightarrow> string \<Rightarrow> string" where
  "or_else a b = (case a of Some s \<Rightarrow> if s \<noteq> [] then s else b | None \<Rightarrow> b)"

text \<open>
  The part of \<^verbatim>\<open>updateFaq\<close> that prepares \<^verbatim>\<open>updateValues\<close> from the input and the
  current row: the supplied fields, and the keywords as supplied, or generated again
  when the question or the answer is supplied, or left out.
\<close>

definition prepare_values :: "UpdateFaqInput \<Rightarrow> Faq \<Rightarrow> updateValues" where
  "prepare_values input currentFaq =
     \<lparr>uv_category = uf_category input,
      uv_question = uf_question input,
      uv_answer = uf_answer input,
      uv_is_active = uf_is_active input,
      uv_keywords =
        (case uf_keywords input of
           Some ks \<Rightarrow> Some ks
         | None \<Rightarrow>
             if uf_question input \<noteq> None \<or> uf_answer input \<noteq> None then
               (let question = or_else (uf_question input) (f_question currentFaq);
                    answer = or_else (uf_answer input) (f_answer currentFaq)
                in Some (generateKeywords question answer))
             else None)\<rparr>"

text \<open>
  \<^verbatim>\<open>updateFaq(input)\<close>. The query builder's \<^verbatim>\<open>.set\<close> throws when no column is to be set.
  The update changes every row with the given id and returns the first of them; the
  source would return \<^verbatim>\<open>undefined\<close> if there were none, which is \<open>NoRowReturned\<close> here
  and does not happen (\<open>updateFaq_returns_row\<close>).
\<close>

definition updateFaq :: "UpdateFaqInput \<Rightarrow> db \<Rightarrow> (error + Faq) \<times> db" where
  "updateFaq input d =
     (case getFaqById (uf_id input) d of
        None \<Rightarrow> (Inl FaqNotFound, d)
      | Some currentFaq \<Rightarrow>
          let v = prepare_values input currentFaq
          in if no_values v then (Inl NoValuesToSet, d)
             else
               let d' = d\<lparr>faqsTable :=
                          map (\<lambda>r. if f_id r = uf_id input then set_values v r else r)
                              (faqsTable d)\<rparr>;
                   results = filter (\<lambda>r. f_id r = uf_id input) (faqsTable d')
               in (case results of
                     [] \<Rightarrow> (Inl NoRowReturned, d')
                   | r # _ \<Rightarrow> (Inr r, d')))"

section \<open>Router\<close>

text \<open>
  The procedures \<^verbatim>\<open>faqs.create\<close> and \<^verbatim>\<open>faqs.update\<close> of \<^verbatim>\<open>index.ts\<close> parse the request
  with \<^verbatim>\<open>createFaqInputSchema\<close> or \<^verbatim>\<open>updateFaqInputSchema\<close> and call the handler only
  with a request that parsed. A request is what arrives: its category is still a text,
  and a request to create may carry a key \<^verbatim>\<open>is_active\<close>, which the schema does not
  declare and the parser drops.
\<close>

record CreateFaqRequest =
  cr_school_id :: int
  cr_category :: string
  cr_question :: string
  cr_answer :: string
  cr_keywords :: "string list option"
  cr_is_active :: "bool option"


definition faqCategorySchema :: "string \<Rightarrow> FaqCategory option" where
  "faqCategorySchema s =
     (if s = ''admissions'' then Some admissions
      else if s = ''academic_programs'' then Some academic_programs
      else if s = ''campus_life'' then Some campus_life
      else if s = ''contact_support'' then Some contact_support
      else if s = ''general_info'' then Some general_info
      else None)"

definition createFaqInputSchema :: "CreateFaqRequest \<Rightarrow> error + CreateFaqInput" where
  "createFaqInputSchema rq =
     (case faqCategorySchema (cr_category rq) of
        None \<Rightarrow> Inl ValidationFailure
      | Some c \<Rightarrow>
          if length (cr_question rq) < 1 then Inl ValidationFailure
          else if length (cr_answer rq) < 1 then Inl ValidationFailure
          else Inr \<lparr>cf_school_id = cr_school_id rq, cf_category = c,
                    cf_question = cr_question rq, cf_answer = cr_answer rq,
                    cf_keywords = cr_keywords rq\<rparr>)"



text \<open>\<^verbatim>\<open>.input(createFaqInputSchema).mutation(({ input }) => createFaq(input, 1))\<close>.\<close>

definition faqs_create :: "CreateFaqRequest \<Rightarrow> int \<Rightarrow> db \<Rightarrow> (error + Faq) \<times> db" where
  "faqs_create rq now d =
     (case createFaqInputSchema rq of
        Inl e \<Rightarrow> (Inl e, d)
      | Inr input \<Rightarrow> createFaq input 1 now d)"


section \<open>Example store\<close>

text \<open>One active school with one question, as in the scenarios of the specification.\<close>

definition acme :: School where
  "acme = \<lparr>s_id = 1, s_name = ''Acme'', s_domain = ''acme.edu'', s_location = None,
            s_contact_email = None, s_contact_phone = None, s_is_active = True,
            s_created_at = 0, s_updated_at = 0\<rparr>"

definition admission_faq :: Faq where
  "admission_faq =
     \<lparr>f_id = 1, f_school_id = 1, f_category = admissions,
      f_question = ''What are the admission requirements?'',
      f_answer = ''A diploma and test scores.'',
      f_keywords = [''admission'', ''requirements'', ''diploma''],
      f_is_active = True, f_created_by = 1, f_created_at = 10, f_updated_at = 10\<rparr>"

definition acme_db :: db where
  "acme_db = \<lparr>schoolsTable = [acme], faqsTable = [admission_faq], faqs_id_seq = 2\<rparr>"

text \<open>Twenty-one matching questions; a closed school; a retired question.\<close>

definition many_db :: db where
  "many_db =
     \<lparr>schoolsTable = [acme],
      faqsTable =
        map (\<lambda>n. admission_faq\<lparr>f_id := int n, f_question := ''Fees?'', f_answer := ''None.'',
                                  f_keywords := [], f_created_at := int n\<rparr>) [0..<21],
      faqs_id_seq = 21\<rparr>"

definition closed_db :: db where
  "closed_db = \<lparr>schoolsTable = [acme\<lparr>s_is_active := False\<rparr>],
                 faqsTable = [admission_faq], faqs_id_seq = 2\<rparr>"

definition retired_db :: db where
  "retired_db = \<lparr>schoolsTable = [acme],
                  faqsTable = [admission_faq\<lparr>f_is_active := False\<rparr>], faqs_id_seq = 2\<rparr>"

text \<open>A question to create, and the row it becomes at time 20.\<close>

definition dining_faq :: Faq where
  "dining_faq =
     \<lparr>f_id = 2, f_school_id = 1, f_category = campus_life,
      f_question = ''What dining options exist on campus?'',
      f_answer = ''Multiple cafeterias serve various cuisines.'',
      f_keywords = [''what'', ''dining'', ''options'', ''exist'', ''campus'', ''multiple'',
                    ''cafeterias'', ''serve'', ''various'', ''cuisines''],
      f_is_active = True, f_created_by = 1, f_created_at = 20, f_updated_at = 20\<rparr>"

definition dining_input :: CreateFaqInput where
  "dining_input =
     \<lparr>cf_school_id = 1, cf_category = campus_life,
      cf_question = ''What dining options exist on campus?'',
      cf_answer = ''Multiple cafeterias serve various cuisines.'',
      cf_keywords = None\<rparr>"

section \<open>Properties of the text primitives\<close>

lemma code_unit_char_of: "n < 256 \<Longrightarrow> code_unit (char_of n) = n"
  by (simp add: code_unit_def)

lemma code_unit_less: "code_unit c < 256"
  unfolding code_unit_def
  by (metis of_char_of char_of_char mod_less_divisor zero_less_numeral)

lemma lower_char_idem: "lower_char (lower_char c) = lower_char c"
  using code_unit_less [of c]
  by (auto simp: lower_char_def Let_def code_unit_char_of)

lemma toLowerCase_fixed:
  assumes "set w \<subseteq> set (toLowerCase s)"
  shows "toLowerCase w = w"
proof -
  have "lower_char c = c" if "c \<in> set w" for c
  proof -
    from that assms obtain d where "c = lower_char d"
      by (auto simp: toLowerCase_def)
    then show ?thesis by (simp add: lower_char_idem)
  qed
  then show ?thesis
    by (simp add: toLowerCase_def map_idI)
qed

lemma runs_sublist: "w \<in> set (runs P cur s) \<Longrightarrow> sublist w (cur @ s)"
proof (induction s arbitrary: cur)
  case Nil
  then show ?case by (auto split: if_splits)
next
  case (Cons c cs)
  show ?case
  proof (cases "P c")
    case True
    with Cons.prems have "w \<in> set (runs P (cur @ [c]) cs)" by simp
    then have "sublist w ((cur @ [c]) @ cs)" by (rule Cons.IH)
    then show ?thesis by simp
  next
    case False
    with Cons.prems consider "w = cur" | "w \<in> set (runs P [] cs)"
      by (auto split: if_splits)
    then show ?thesis
    proof cases
      case 1
      then show ?thesis by (simp add: sublist_append)
    next
      case 2
      then have "sublist w ([] @ cs)" by (rule Cons.IH)
      then obtain ps ss where "cs = ps @ w @ ss" by (auto simp: sublist_def)
      then have "cur @ c # cs = (cur @ c # ps) @ w @ ss" by simp
      then show ?thesis unfolding sublist_def by blast
    qed
  qed
qed

lemma sublist_set: "sublist w t \<Longrightarrow> set w \<subseteq> set t"
  by (auto simp: sublist_def)

lemma match_words_sublist: "w \<in> set (match_words t) \<Longrightarrow> sublist w t"
  using runs_sublist [of w is_word_char "[]" t] by (simp add: match_words_def)

lemma match_words_length: "w \<in> set (match_words t) \<Longrightarrow> 3 \<le> length w"
  by (simp add: match_words_def)

lemma set_Set_add_all: "set (Set_add_all seen xs) = set seen \<union> set xs"
  by (induction xs arbitrary: seen) auto

lemma distinct_Set_add_all: "distinct seen \<Longrightarrow> distinct (Set_add_all seen xs)"
  by (induction xs arbitrary: seen) auto

lemma Set_add_all_first_seen:
  "Set_add_all seen xs =
     seen @ map (\<lambda>i. xs ! i)
       (filter (\<lambda>i. xs ! i \<notin> set seen \<and> xs ! i \<notin> set (take i xs)) [0..<length xs])"
proof (induction xs arbitrary: seen)
  case Nil
  then show ?case by simp
next
  case (Cons x xs)
  have upt: "[0..<length (x # xs)] = 0 # map Suc [0..<length xs]"
    by (simp add: upt_conv_Cons map_Suc_upt del: upt_Suc)
  show ?case
  proof (cases "x \<in> set seen")
    case True
    have "filter (\<lambda>i. xs ! i \<notin> set seen \<and> xs ! i \<noteq> x \<and> xs ! i \<notin> set (take i xs)) [0..<length xs]
        = filter (\<lambda>i. xs ! i \<notin> set seen \<and> xs ! i \<notin> set (take i xs)) [0..<length xs]"
      using True by (intro filter_cong) auto
    with True show ?thesis
      by (simp only: upt Set_add_all.simps Cons.IH [of seen])
         (simp add: filter_map o_def)
  next
    case False
    then show ?thesis
      by (simp only: upt Set_add_all.simps Cons.IH [of "seen @ [x]"])
         (simp add: filter_map o_def conj_ac)
  qed
qed

section \<open>Keyword extractor\<close>

lemma set_generateKeywords:
  "set (generateKeywords q a) = set (match_words (toLowerCase (q @ '' '' @ a)))"
  by (simp add: generateKeywords_def Let_def set_Set_add_all)

lemma generateKeywords_nonempty_iff:
  "generateKeywords q a \<noteq> [] \<longleftrightarrow> match_words (toLowerCase (q @ '' '' @ a)) \<noteq> []"
  using set_generateKeywords [of q a] by (metis set_empty)

text \<open>
  C6. For all texts \<open>q\<close> and \<open>a\<close>: every keyword of \<open>generateKeywords q a\<close> has at
  least three characters, is its own lower-case form and occurs as a contiguous piece of
  the lower-cased text \<open>q\<close>, space, \<open>a\<close>; the result has no duplicates and consists of
  the matched words at the positions where a word occurs for the first time, in that
  order; and two empty texts give the empty result (the function is total, so there is
  no error).
\<close>

theorem generateKeywords_sound:
  "(\<forall>w \<in> set (generateKeywords q a).
       3 \<le> length w \<and> toLowerCase w = w \<and> sublist w (toLowerCase (q @ '' '' @ a)))
   \<and> distinct (generateKeywords q a)
   \<and> generateKeywords q a =
       (let ws = match_words (toLowerCase (q @ '' '' @ a))
        in map (\<lambda>i. ws ! i) (filter (\<lambda>i. ws ! i \<notin> set (take i ws)) [0..<length ws]))
   \<and> generateKeywords [] [] = []"
proof (intro conjI ballI)
  fix w
  assume "w \<in> set (generateKeywords q a)"
  then have w: "w \<in> set (match_words (toLowerCase (q @ '' '' @ a)))"
    by (simp add: set_generateKeywords)
  then show "3 \<le> length w" by (rule match_words_length)
  from w show sub: "sublist w (toLowerCase (q @ '' '' @ a))" by (rule match_words_sublist)
  then show "toLowerCase w = w"
    by (intro toLowerCase_fixed sublist_set)
next
  show "distinct (generateKeywords q a)"
    by (simp add: generateKeywords_def Let_def distinct_Set_add_all)
next
  show "generateKeywords q a =
       (let ws = match_words (toLowerCase (q @ '' '' @ a))
        in map (\<lambda>i. ws ! i) (filter (\<lambda>i. ws ! i \<notin> set (take i ws)) [0..<length ws]))"
    by (simp add: generateKeywords_def Let_def Set_add_all_first_seen)
next
  show "generateKeywords [] [] = []"
    by code_simp
qed

theorem generateKeywords_sound_witness:
  "''campus'' \<in> set (generateKeywords ''What dining options exist on campus?''
                       ''Multiple cafeterias serve various cuisines on campus.'')
   \<and> 3 \<le> length ''campus''
   \<and> toLowerCase ''campus'' = ''campus''
   \<and> sublist ''campus'' (toLowerCase (''What dining options exist on campus?'' @ '' '' @
                       ''Multiple cafeterias serve various cuisines on campus.''))
   \<and> generateKeywords ''What dining options exist on campus?''
        ''Multiple cafeterias serve various cuisines on campus.'' =
       [''what'', ''dining'', ''options'', ''exist'', ''campus'', ''multiple'',
        ''cafeterias'', ''serve'', ''various'', ''cuisines'']"
proof -
  have k: "generateKeywords ''What dining options exist on campus?''
        ''Multiple cafeterias serve various cuisines on campus.'' =
       [''what'', ''dining'', ''options'', ''exist'', ''campus'', ''multiple'',
        ''cafeterias'', ''serve'', ''various'', ''cuisines'']"
    by code_simp
  have m: "''campus'' \<in> set (generateKeywords ''What dining options exist on campus?''
                       ''Multiple cafeterias serve various cuisines on campus.'')"
    by (simp only: k) simp
  from generateKeywords_sound [of "''What dining options exist on campus?''"
      "''Multiple cafeterias serve various cuisines on campus.''"] m k
  show ?thesis by blast
qed

section \<open>Search\<close>

lemma set_where_and:
  "set (where_and cs rows) = {r \<in> set rows. \<forall>c \<in> set cs. c r}"
  by (auto simp: where_and_def list_all_iff)

lemma set_innerJoin:
  "set (innerJoin d) =
     {(f, s). f \<in> set (faqsTable d) \<and> s \<in> set (schoolsTable d) \<and> f_school_id f = s_id s}"
  by (auto simp: innerJoin_def)

lemma set_orderBy [simp]: "set (orderBy_desc_created_at rows) = set rows"
  by (simp add: orderBy_desc_created_at_def)

lemma length_orderBy [simp]: "length (orderBy_desc_created_at rows) = length rows"
  by (simp add: orderBy_desc_created_at_def)

lemma sorted_orderBy:
  "sorted_wrt (\<lambda>a b. f_created_at b \<le> f_created_at a) (orderBy_desc_created_at rows)"
proof -
  have "sorted (map (\<lambda>f. - f_created_at f) (orderBy_desc_created_at rows))"
    by (simp add: orderBy_desc_created_at_def)
  then show ?thesis by (simp add: sorted_map)
qed

lemma base_subset_conditions:
  "set (base_conditions (cq_school_domain input)) \<subseteq> set (conditions input)"
  by (auto simp: conditions_def Let_def split: option.splits list.splits)

lemma category_in_conditions:
  "cq_category input = Some c \<Longrightarrow> (\<lambda>r. f_category (fst r) = c) \<in> set (conditions input)"
  by (auto simp: conditions_def Let_def split: option.splits list.splits)

lemma base_conditions_iff:
  "(\<forall>c \<in> set (base_conditions sd). c r) \<longleftrightarrow>
     s_domain (snd r) = sd \<and> f_is_active (fst r) \<and> s_is_active (snd r)"
  by (simp add: base_conditions_def)

lemma faqs_searchFaqs_subset:
  "set (faqs (searchFaqs input d)) \<subseteq> fst ` set (where_and (conditions input) (innerJoin d))"
  by (auto simp: searchFaqs_def Let_def dest!: in_set_takeD)

text \<open>
  C1. For every input and store, every entry in \<open>faqs\<close> of the result of
  \<open>searchFaqs\<close> is a row of the FAQ table that is active and refers to a school row
  with the input's domain that is active; when the input names a category, the entry has
  that category.
\<close>

theorem searchFaqs_scoped:
  "\<forall>f \<in> set (faqs (searchFaqs input d)).
      f \<in> set (faqsTable d)
      \<and> f_is_active f
      \<and> (\<exists>s \<in> set (schoolsTable d).
            s_id s = f_school_id f \<and> s_domain s = cq_school_domain input \<and> s_is_active s)
      \<and> (\<forall>c. cq_category input = Some c \<longrightarrow> f_category f = c)"
proof
  fix f
  assume "f \<in> set (faqs (searchFaqs input d))"
  with faqs_searchFaqs_subset obtain s
    where r: "(f, s) \<in> set (where_and (conditions input) (innerJoin d))"
    by fastforce
  then have j: "(f, s) \<in> set (innerJoin d)" and c: "\<forall>c \<in> set (conditions input). c (f, s)"
    by (auto simp: set_where_and)
  from c base_subset_conditions have "\<forall>c \<in> set (base_conditions (cq_school_domain input)). c (f, s)"
    by blast
  then have b: "s_domain s = cq_school_domain input" "f_is_active f" "s_is_active s"
    by (simp_all add: base_conditions_iff)
  have cat: "f_category f = k" if "cq_category input = Some k" for k
    using category_in_conditions [OF that] c by fastforce
  from j have "f \<in> set (faqsTable d)" "s \<in> set (schoolsTable d)" "f_school_id f = s_id s"
    by (simp_all add: set_innerJoin)
  with b cat show "f \<in> set (faqsTable d)
      \<and> f_is_active f
      \<and> (\<exists>s \<in> set (schoolsTable d).
            s_id s = f_school_id f \<and> s_domain s = cq_school_domain input \<and> s_is_active s)
      \<and> (\<forall>c. cq_category input = Some c \<longrightarrow> f_category f = c)"
    by auto
qed

text \<open>
  C2. For every input and store, \<open>faqs\<close> of the result of \<open>searchFaqs\<close> has at most
  20 entries, is in descending order of \<open>created_at\<close>, and \<open>total_results\<close> is the
  length of that sequence: the number of matching rows cut at 20, not the number of
  matching rows.
\<close>

theorem searchFaqs_bounded:
  "length (faqs (searchFaqs input d)) \<le> 20
   \<and> sorted_wrt (\<lambda>a b. f_created_at b \<le> f_created_at a) (faqs (searchFaqs input d))
   \<and> total_results (searchFaqs input d) = length (faqs (searchFaqs input d))
   \<and> total_results (searchFaqs input d) =
       min 20 (length (where_and (conditions input) (innerJoin d)))"
  by (simp add: searchFaqs_def Let_def sorted_wrt_take sorted_orderBy min_def)


theorem searchFaqs_scoped_witness:
  "admission_faq \<in> set (faqs (searchFaqs
      \<lparr>cq_school_domain = ''acme.edu'', cq_query = ''admission requirements'',
       cq_category = Some admissions\<rparr> acme_db))
   \<and> admission_faq \<in> set (faqsTable acme_db)
   \<and> f_is_active admission_faq
   \<and> (\<exists>s \<in> set (schoolsTable acme_db).
         s_id s = f_school_id admission_faq \<and> s_domain s = ''acme.edu'' \<and> s_is_active s)
   \<and> f_category admission_faq = admissions"
proof -
  have m: "admission_faq \<in> set (faqs (searchFaqs
      \<lparr>cq_school_domain = ''acme.edu'', cq_query = ''admission requirements'',
       cq_category = Some admissions\<rparr> acme_db))"
    by code_simp
  from searchFaqs_scoped [of "\<lparr>cq_school_domain = ''acme.edu'',
      cq_query = ''admission requirements'', cq_category = Some admissions\<rparr>" acme_db] m
  show ?thesis by fastforce
qed

theorem searchFaqs_bounded_witness:
  "length (where_and (conditions \<lparr>cq_school_domain = ''acme.edu'', cq_query = ''fees'',
       cq_category = None\<rparr>) (innerJoin many_db)) = 21
   \<and> total_results (searchFaqs \<lparr>cq_school_domain = ''acme.edu'', cq_query = ''fees'',
       cq_category = None\<rparr> many_db) = 20
   \<and> length (faqs (searchFaqs \<lparr>cq_school_domain = ''acme.edu'', cq_query = ''fees'',
       cq_category = None\<rparr> many_db)) = 20
   \<and> sorted_wrt (\<lambda>a b. f_created_at b \<le> f_created_at a)
       (faqs (searchFaqs \<lparr>cq_school_domain = ''acme.edu'', cq_query = ''fees'',
         cq_category = None\<rparr> many_db))
   \<and> map f_created_at (faqs (searchFaqs \<lparr>cq_school_domain = ''acme.edu'',
         cq_query = ''fees'', cq_category = None\<rparr> many_db)) =
       [20, 19, 18, 17, 16, 15, 14, 13, 12, 11, 10, 9, 8, 7, 6, 5, 4, 3, 2, 1]"
proof -
  have n: "length (where_and (conditions \<lparr>cq_school_domain = ''acme.edu'',
       cq_query = ''fees'', cq_category = None\<rparr>) (innerJoin many_db)) = 21"
    by code_simp
  have k: "map f_created_at (faqs (searchFaqs \<lparr>cq_school_domain = ''acme.edu'',
         cq_query = ''fees'', cq_category = None\<rparr> many_db)) =
       [20, 19, 18, 17, 16, 15, 14, 13, 12, 11, 10, 9, 8, 7, 6, 5, 4, 3, 2, 1]"
    by code_simp
  from searchFaqs_bounded [of "\<lparr>cq_school_domain = ''acme.edu'', cq_query = ''fees'',
       cq_category = None\<rparr>" many_db] n k
  show ?thesis by simp
qed

section \<open>Suggested categories\<close>

lemma suggested_eq:
  "suggested_categories (searchFaqs input d) = getAvailableCategories (cq_school_domain input) d"
  by (simp add: searchFaqs_def getAvailableCategories_def Let_def)

lemma set_getAvailableCategories:
  "set (getAvailableCategories sd d) =
     {f_category f | f s. f \<in> set (faqsTable d) \<and> s \<in> set (schoolsTable d)
        \<and> f_school_id f = s_id s
        \<and> s_domain s = sd \<and> f_is_active f \<and> s_is_active s}"
proof -
  have "set (getAvailableCategories sd d) =
      (\<lambda>r. f_category (fst r)) `
        {r \<in> set (innerJoin d). \<forall>c \<in> set (base_conditions sd). c r}"
    by (simp add: getAvailableCategories_def groupBy_category_def set_where_and)
  also have "\<dots> = {f_category f | f s. f \<in> set (faqsTable d) \<and> s \<in> set (schoolsTable d)
        \<and> f_school_id f = s_id s
        \<and> s_domain s = sd \<and> f_is_active f \<and> s_is_active s}"
    unfolding base_conditions_iff set_innerJoin by force
  finally show ?thesis .
qed

lemma getAvailableCategories_empty:
  assumes "\<forall>f \<in> set (faqsTable d). \<forall>s \<in> set (schoolsTable d).
             f_school_id f = s_id s \<and> s_domain s = sd \<longrightarrow> \<not> (f_is_active f \<and> s_is_active s)"
  shows "getAvailableCategories sd d = []"
proof -
  from assms have "set (getAvailableCategories sd d) = {}"
    unfolding set_getAvailableCategories by blast
  then show ?thesis by simp
qed

text \<open>
  C3. For every input and store, \<open>suggested_categories\<close> of the result of
  \<open>searchFaqs\<close> is the result of \<open>getAvailableCategories\<close> for the input's domain; it
  has no duplicates; its elements are exactly the categories of the active rows of the
  FAQ table that refer to an active school row with that domain; it does not change when
  the query text and the category filter are replaced; and it is empty when no school row
  has the domain, when every school row with the domain is inactive, and when no row of
  the FAQ table of a school with the domain is active.
\<close>

theorem suggested_categories_tenant_wide:
  "suggested_categories (searchFaqs input d) = getAvailableCategories (cq_school_domain input) d
   \<and> distinct (suggested_categories (searchFaqs input d))
   \<and> set (suggested_categories (searchFaqs input d)) =
       {f_category f | f s. f \<in> set (faqsTable d) \<and> s \<in> set (schoolsTable d)
          \<and> f_school_id f = s_id s
          \<and> s_domain s = cq_school_domain input \<and> f_is_active f \<and> s_is_active s}
   \<and> suggested_categories (searchFaqs (input\<lparr>cq_query := q', cq_category := c'\<rparr>) d) =
       suggested_categories (searchFaqs input d)
   \<and> ((\<forall>s \<in> set (schoolsTable d). s_domain s \<noteq> cq_school_domain input) \<longrightarrow>
         suggested_categories (searchFaqs input d) = [])
   \<and> ((\<forall>s \<in> set (schoolsTable d). s_domain s = cq_school_domain input \<longrightarrow> \<not> s_is_active s) \<longrightarrow>
         suggested_categories (searchFaqs input d) = [])
   \<and> ((\<forall>f \<in> set (faqsTable d). \<forall>s \<in> set (schoolsTable d).
          f_school_id f = s_id s \<and> s_domain s = cq_school_domain input \<longrightarrow> \<not> f_is_active f) \<longrightarrow>
         suggested_categories (searchFaqs input d) = [])"
proof (intro conjI impI)
  show "suggested_categories (searchFaqs input d) =
      getAvailableCategories (cq_school_domain input) d"
    by (rule suggested_eq)
  show "distinct (suggested_categories (searchFaqs input d))"
    by (simp add: suggested_eq getAvailableCategories_def groupBy_category_def)
  show "set (suggested_categories (searchFaqs input d)) =
       {f_category f | f s. f \<in> set (faqsTable d) \<and> s \<in> set (schoolsTable d)
          \<and> f_school_id f = s_id s
          \<and> s_domain s = cq_school_domain input \<and> f_is_active f \<and> s_is_active s}"
    by (simp only: suggested_eq set_getAvailableCategories)
  show "suggested_categories (searchFaqs (input\<lparr>cq_query := q', cq_category := c'\<rparr>) d) =
       suggested_categories (searchFaqs input d)"
    by (simp add: suggested_eq)
next
  assume "\<forall>s \<in> set (schoolsTable d). s_domain s \<noteq> cq_school_domain input"
  then show "suggested_categories (searchFaqs input d) = []"
    unfolding suggested_eq by (intro getAvailableCategories_empty) blast
next
  assume "\<forall>s \<in> set (schoolsTable d). s_domain s = cq_school_domain input \<longrightarrow> \<not> s_is_active s"
  then show "suggested_categories (searchFaqs input d) = []"
    unfolding suggested_eq by (intro getAvailableCategories_empty) blast
next
  assume "\<forall>f \<in> set (faqsTable d). \<forall>s \<in> set (schoolsTable d).
          f_school_id f = s_id s \<and> s_domain s = cq_school_domain input \<longrightarrow> \<not> f_is_active f"
  then show "suggested_categories (searchFaqs input d) = []"
    unfolding suggested_eq by (intro getAvailableCategories_empty) blast
qed

theorem suggested_categories_tenant_wide_witness:
  "suggested_categories (searchFaqs \<lparr>cq_school_domain = ''acme.edu'', cq_query = ''zzzz'',
       cq_category = Some campus_life\<rparr> acme_db) = [admissions]
   \<and> getAvailableCategories ''acme.edu'' acme_db = [admissions]
   \<and> list_all (\<lambda>s. s_domain s \<noteq> ''unknown.edu'') (schoolsTable acme_db)
   \<and> suggested_categories (searchFaqs \<lparr>cq_school_domain = ''unknown.edu'',
       cq_query = ''anything'', cq_category = None\<rparr> acme_db) = []
   \<and> list_all (\<lambda>s. s_domain s = ''acme.edu'' \<and> \<not> s_is_active s) (schoolsTable closed_db)
   \<and> suggested_categories (searchFaqs \<lparr>cq_school_domain = ''acme.edu'',
       cq_query = ''admission'', cq_category = None\<rparr> closed_db) = []
   \<and> list_all (\<lambda>f. f_school_id f = s_id acme \<and> \<not> f_is_active f) (faqsTable retired_db)
   \<and> schoolsTable retired_db = [acme] \<and> s_domain acme = ''acme.edu''
   \<and> suggested_categories (searchFaqs \<lparr>cq_school_domain = ''acme.edu'',
       cq_query = ''admission'', cq_category = None\<rparr> retired_db) = []"
proof -
  have a: "getAvailableCategories ''acme.edu'' acme_db = [admissions]"
    by code_simp
  have h1: "\<forall>s \<in> set (schoolsTable acme_db). s_domain s \<noteq> ''unknown.edu''"
    by (simp add: acme_db_def acme_def)
  have h2: "\<forall>s \<in> set (schoolsTable closed_db). s_domain s = ''acme.edu'' \<longrightarrow> \<not> s_is_active s"
    by (simp add: closed_db_def acme_def)
  have h3: "\<forall>f \<in> set (faqsTable retired_db). \<forall>s \<in> set (schoolsTable retired_db).
          f_school_id f = s_id s \<and> s_domain s = ''acme.edu'' \<longrightarrow> \<not> f_is_active f"
    by (simp add: retired_db_def admission_faq_def)
  let ?i1 = "\<lparr>cq_school_domain = ''acme.edu'', cq_query = ''zzzz'',
       cq_category = Some campus_life\<rparr>"
  let ?i2 = "\<lparr>cq_school_domain = ''unknown.edu'',
       cq_query = ''anything'', cq_category = None\<rparr>"
  let ?i3 = "\<lparr>cq_school_domain = ''acme.edu'',
       cq_query = ''admission'', cq_category = None\<rparr>"
  have d1: "cq_school_domain ?i1 = ''acme.edu''" and d2: "cq_school_domain ?i2 = ''unknown.edu''"
    and d3: "cq_school_domain ?i3 = ''acme.edu''"
    by simp_all
  have "suggested_categories (searchFaqs ?i1 acme_db) =
      getAvailableCategories (cq_school_domain ?i1) acme_db"
    using suggested_categories_tenant_wide [of ?i1 acme_db None "[]"] by (rule conjunct1)
  with a have e1: "suggested_categories (searchFaqs ?i1 acme_db) = [admissions]"
    by (simp only: d1)
  have "(\<forall>s \<in> set (schoolsTable acme_db). s_domain s \<noteq> cq_school_domain ?i2) \<longrightarrow>
         suggested_categories (searchFaqs ?i2 acme_db) = []"
    using suggested_categories_tenant_wide [of ?i2 acme_db None "[]"] by blast
  with h1 have e2: "suggested_categories (searchFaqs ?i2 acme_db) = []"
    by (simp only: d2)
  have "(\<forall>s \<in> set (schoolsTable closed_db). s_domain s = cq_school_domain ?i3 \<longrightarrow> \<not> s_is_active s)
        \<longrightarrow> suggested_categories (searchFaqs ?i3 closed_db) = []"
    using suggested_categories_tenant_wide [of ?i3 closed_db None "[]"] by blast
  with h2 have e3: "suggested_categories (searchFaqs ?i3 closed_db) = []"
    by (simp only: d3)
  have "(\<forall>f \<in> set (faqsTable retired_db). \<forall>s \<in> set (schoolsTable retired_db).
          f_school_id f = s_id s \<and> s_domain s = cq_school_domain ?i3 \<longrightarrow> \<not> f_is_active f) \<longrightarrow>
         suggested_categories (searchFaqs ?i3 retired_db) = []"
    using suggested_categories_tenant_wide [of ?i3 retired_db None "[]"] by blast
  with h3 have e4: "suggested_categories (searchFaqs ?i3 retired_db) = []"
    by (simp only: d3)
  have l1: "list_all (\<lambda>s. s_domain s \<noteq> ''unknown.edu'') (schoolsTable acme_db)"
    and l2: "list_all (\<lambda>s. s_domain s = ''acme.edu'' \<and> \<not> s_is_active s) (schoolsTable closed_db)"
    and l3: "list_all (\<lambda>f. f_school_id f = s_id acme \<and> \<not> f_is_active f) (faqsTable retired_db)"
    and l4: "schoolsTable retired_db = [acme]" and l5: "s_domain acme = ''acme.edu''"
    by (simp_all add: acme_db_def closed_db_def retired_db_def acme_def admission_faq_def)
  from a l1 l2 l3 l4 l5 e1 e2 e3 e4 show ?thesis by (intro conjI)
qed


section \<open>Query tokenizer\<close>

lemma runs_dropWhile: "runs P [] (dropWhile (\<lambda>c. \<not> P c) s) = runs P [] s"
  by (induction s) auto

lemma split_ws_runs:
  "filter (\<lambda>t. t \<noteq> []) (split_ws cur s) = runs (\<lambda>c. \<not> is_space_char c) cur s"
proof (induction cur s rule: split_ws.induct)
  case (1 cur)
  then show ?case by simp
next
  case (2 cur c cs)
  show ?case
  proof (cases "is_space_char c")
    case True
    with 2 have "filter (\<lambda>t. t \<noteq> []) (split_ws [] (dropWhile is_space_char cs)) =
        runs (\<lambda>c. \<not> is_space_char c) [] (dropWhile is_space_char cs)"
      by simp
    also have "\<dots> = runs (\<lambda>c. \<not> is_space_char c) [] cs"
      using runs_dropWhile [of "\<lambda>c. \<not> is_space_char c" cs] by simp
    finally show ?thesis using True by simp
  next
    case False
    with 2 show ?thesis by simp
  qed
qed

lemma searchTerms_tokenize: "searchTerms q = tokenize q"
proof -
  have "filter (\<lambda>t. length t > 2) xs = filter (\<lambda>t. \<not> length t \<le> 2) (filter (\<lambda>t. t \<noteq> []) xs)"
    for xs :: "string list"
    by (induction xs) auto
  then show ?thesis
    by (simp only: searchTerms_def tokenize_def split_ws_runs)
qed

lemma runs_none: "\<forall>c \<in> set s. \<not> P c \<Longrightarrow> runs P [] s = []"
  by (induction s) auto

lemma lower_char_space: "is_space_char c \<Longrightarrow> lower_char c = c"
  by (auto simp: is_space_char_def lower_char_def Let_def)

lemma searchTerms_whitespace:
  assumes "\<forall>c \<in> set q. is_space_char c"
  shows "searchTerms q = []"
proof -
  from assms have "toLowerCase q = q"
    by (simp add: toLowerCase_def lower_char_space map_idI)
  with assms have "runs (\<lambda>c. \<not> is_space_char c) [] (toLowerCase q) = []"
    by (simp add: runs_none)
  then show ?thesis
    by (simp add: searchTerms_tokenize tokenize_def)
qed

lemma conditions_no_terms:
  assumes "searchTerms (cq_query input) = []"
  shows "conditions input =
     base_conditions (cq_school_domain input) @
       (case cq_category input of Some c \<Rightarrow> [\<lambda>r. f_category (fst r) = c] | None \<Rightarrow> [])"
  using assms by (simp add: conditions_def Let_def split: option.splits)

lemma where_and_no_terms:
  assumes "searchTerms (cq_query input) = []"
  shows "where_and (conditions input) rows =
     filter (\<lambda>(f, s). s_domain s = cq_school_domain input \<and> f_is_active f \<and> s_is_active s
               \<and> (case cq_category input of Some c \<Rightarrow> f_category f = c | None \<Rightarrow> True)) rows"
  unfolding where_and_def conditions_no_terms [OF assms]
  by (intro filter_cong) (auto simp: base_conditions_def split: option.splits)

lemma runs_all:
  "w \<in> set (runs P cur s) \<Longrightarrow> \<forall>c \<in> set cur. P c \<Longrightarrow> \<forall>c \<in> set w. P c"
proof (induction s arbitrary: cur)
  case Nil
  then show ?case by (simp split: if_splits)
next
  case (Cons a s)
  show ?case
  proof (cases "P a")
    case True
    with Cons.prems(1) have "w \<in> set (runs P (cur @ [a]) s)" by simp
    moreover from True Cons.prems(2) have "\<forall>c \<in> set (cur @ [a]). P c" by simp
    ultimately show ?thesis by (rule Cons.IH)
  next
    case False
    with Cons.prems(1) consider "w = cur" | "w \<in> set (runs P [] s)"
      by (auto split: if_splits)
    then show ?thesis
    proof cases
      case 1
      with Cons.prems(2) show ?thesis by simp
    next
      case 2
      then show ?thesis by (rule Cons.IH) simp
    qed
  qed
qed

lemma searchTerms_empty_iff:
  "searchTerms q = [] \<longleftrightarrow>
     (\<forall>t \<in> set (runs (\<lambda>c. \<not> is_space_char c) [] (toLowerCase q)). length t \<le> 2)"
  by (simp add: searchTerms_tokenize tokenize_def filter_empty_conv)

lemma searchTerms_member:
  assumes "t \<in> set (searchTerms q)"
  shows "2 < length t" and "sublist t (toLowerCase q)" and "toLowerCase t = t"
    and "\<forall>c \<in> set t. \<not> is_space_char c"
proof -
  from assms have r: "t \<in> set (runs (\<lambda>c. \<not> is_space_char c) [] (toLowerCase q))"
    and l: "\<not> length t \<le> 2"
    by (simp_all add: searchTerms_tokenize tokenize_def)
  from l show "2 < length t" by simp
  from runs_sublist [OF r] show s: "sublist t (toLowerCase q)" by simp
  then show "toLowerCase t = t" by (intro toLowerCase_fixed sublist_set)
  from runs_all [OF r] show "\<forall>c \<in> set t. \<not> is_space_char c" by simp
qed

lemma faqs_no_terms:
  assumes "searchTerms (cq_query input) = []"
  shows "faqs (searchFaqs input d) =
          take 20 (orderBy_desc_created_at (map fst
            (filter (\<lambda>(f, s). s_domain s = cq_school_domain input \<and> f_is_active f \<and> s_is_active s
               \<and> (case cq_category input of Some c \<Rightarrow> f_category f = c | None \<Rightarrow> True))
              (innerJoin d))))"
  by (simp add: searchFaqs_def Let_def where_and_no_terms [OF assms])

text \<open>
  C7. For every query text \<open>q\<close>: the search terms are the maximal runs of characters
  other than white space of the lower-cased query that are longer than two characters
  (\<open>tokenize\<close>); each term is longer than two characters, is its own lower-case form, is
  a contiguous piece of the lower-cased query and holds no white space; the empty query
  and a query of white space only give no term, and a query gives no term exactly when
  each of its runs has at most two characters. When the query of an input gives no term,
  \<open>faqs\<close> of the result of \<open>searchFaqs\<close> are the first 20, newest first, of the joined
  rows selected by the domain, the two activity flags and the category of the input when
  it has one, with no condition on the text.
\<close>

theorem searchTerms_filter_only:
  "searchTerms q = tokenize q
   \<and> (\<forall>t \<in> set (searchTerms q). 2 < length t \<and> toLowerCase t = t \<and> sublist t (toLowerCase q)
         \<and> (\<forall>c \<in> set t. \<not> is_space_char c))
   \<and> searchTerms [] = []
   \<and> ((\<forall>c \<in> set q. is_space_char c) \<longrightarrow> searchTerms q = [])
   \<and> ((\<forall>t \<in> set (runs (\<lambda>c. \<not> is_space_char c) [] (toLowerCase q)). length t \<le> 2)
         \<longleftrightarrow> searchTerms q = [])
   \<and> (searchTerms (cq_query input) = [] \<longrightarrow>
        faqs (searchFaqs input d) =
          take 20 (orderBy_desc_created_at (map fst
            (filter (\<lambda>(f, s). s_domain s = cq_school_domain input \<and> f_is_active f \<and> s_is_active s
               \<and> (case cq_category input of Some c \<Rightarrow> f_category f = c | None \<Rightarrow> True))
              (innerJoin d)))))"
proof (intro conjI ballI impI)
  show "searchTerms q = tokenize q" by (rule searchTerms_tokenize)
  show "searchTerms [] = []" by code_simp
  show "(\<forall>t \<in> set (runs (\<lambda>c. \<not> is_space_char c) [] (toLowerCase q)). length t \<le> 2)
         \<longleftrightarrow> searchTerms q = []"
    by (simp only: searchTerms_empty_iff)
next
  fix t assume t: "t \<in> set (searchTerms q)"
  from searchTerms_member [OF t]
  show "2 < length t" and "toLowerCase t = t" and "sublist t (toLowerCase q)"
    and "\<And>c. c \<in> set t \<Longrightarrow> \<not> is_space_char c"
    by blast+
next
  assume "\<forall>c \<in> set q. is_space_char c"
  then show "searchTerms q = []" by (rule searchTerms_whitespace)
next
  assume "searchTerms (cq_query input) = []"
  then show "faqs (searchFaqs input d) =
          take 20 (orderBy_desc_created_at (map fst
            (filter (\<lambda>(f, s). s_domain s = cq_school_domain input \<and> f_is_active f \<and> s_is_active s
               \<and> (case cq_category input of Some c \<Rightarrow> f_category f = c | None \<Rightarrow> True))
              (innerJoin d))))"
    by (rule faqs_no_terms)
qed

theorem searchTerms_filter_only_witness:
  "searchTerms ''Admission REQUIREMENTS of it'' = [''admission'', ''requirements'']
   \<and> 2 < length ''admission''
   \<and> list_all is_space_char [CHR '' '', CHR 0x09, CHR 0x0A]
   \<and> searchTerms [CHR '' '', CHR 0x09, CHR 0x0A] = []
   \<and> list_all (\<lambda>t. length t \<le> 2)
        (runs (\<lambda>c. \<not> is_space_char c) [] (toLowerCase ''to be or''))
   \<and> searchTerms ''to be or'' = []
   \<and> faqs (searchFaqs \<lparr>cq_school_domain = ''acme.edu'', cq_query = ''to be or'',
        cq_category = None\<rparr> acme_db) = [admission_faq]
   \<and> faqs (searchFaqs \<lparr>cq_school_domain = ''acme.edu'', cq_query = ''to be or'',
        cq_category = Some campus_life\<rparr> acme_db) = []"
proof -
  let ?i = "\<lparr>cq_school_domain = ''acme.edu'', cq_query = ''to be or'', cq_category = None\<rparr>"
  let ?j = "\<lparr>cq_school_domain = ''acme.edu'', cq_query = ''to be or'',
        cq_category = Some campus_life\<rparr>"
  have a: "searchTerms ''Admission REQUIREMENTS of it'' = [''admission'', ''requirements'']"
    by code_simp
  have w: "\<forall>c \<in> set [CHR '' '', CHR 0x09, CHR 0x0A]. is_space_char c"
    by (simp add: is_space_char_def code_unit_def)
  have s: "\<forall>t \<in> set (runs (\<lambda>c. \<not> is_space_char c) [] (toLowerCase ''to be or'')). length t \<le> 2"
    by code_simp
  let ?ws = "[CHR '' '', CHR 0x09, CHR 0x0A]"
  have "(\<forall>c \<in> set ?ws. is_space_char c) \<longrightarrow> searchTerms ?ws = []"
    by (rule searchTerms_filter_only [of ?ws ?i acme_db,
          THEN conjunct2, THEN conjunct2, THEN conjunct2, THEN conjunct1])
  from this w have e1: "searchTerms ?ws = []" by (rule mp)
  have "(\<forall>t \<in> set (runs (\<lambda>c. \<not> is_space_char c) [] (toLowerCase ''to be or'')). length t \<le> 2)
         \<longleftrightarrow> searchTerms ''to be or'' = []"
    by (rule searchTerms_filter_only [of "''to be or''" ?i acme_db,
          THEN conjunct2, THEN conjunct2, THEN conjunct2, THEN conjunct2, THEN conjunct1])
  from this s have e2: "searchTerms ''to be or'' = []" by (rule iffD1)
  then have qi: "searchTerms (cq_query ?i) = []" and qj: "searchTerms (cq_query ?j) = []"
    by simp_all
  have fi: "searchTerms (cq_query ?i) = [] \<longrightarrow>
      faqs (searchFaqs ?i acme_db) =
          take 20 (orderBy_desc_created_at (map fst
            (filter (\<lambda>(f, s). s_domain s = cq_school_domain ?i \<and> f_is_active f \<and> s_is_active s
               \<and> (case cq_category ?i of Some c \<Rightarrow> f_category f = c | None \<Rightarrow> True))
              (innerJoin acme_db))))"
    by (rule searchTerms_filter_only [of "[]" ?i acme_db,
          THEN conjunct2, THEN conjunct2, THEN conjunct2, THEN conjunct2, THEN conjunct2])
  have fj: "searchTerms (cq_query ?j) = [] \<longrightarrow>
      faqs (searchFaqs ?j acme_db) =
          take 20 (orderBy_desc_created_at (map fst
            (filter (\<lambda>(f, s). s_domain s = cq_school_domain ?j \<and> f_is_active f \<and> s_is_active s
               \<and> (case cq_category ?j of Some c \<Rightarrow> f_category f = c | None \<Rightarrow> True))
              (innerJoin acme_db))))"
    by (rule searchTerms_filter_only [of "[]" ?j acme_db,
          THEN conjunct2, THEN conjunct2, THEN conjunct2, THEN conjunct2, THEN conjunct2])
  have vi: "take 20 (orderBy_desc_created_at (map fst
            (filter (\<lambda>(f, s). s_domain s = cq_school_domain ?i \<and> f_is_active f \<and> s_is_active s
               \<and> (case cq_category ?i of Some c \<Rightarrow> f_category f = c | None \<Rightarrow> True))
              (innerJoin acme_db)))) = [admission_faq]"
    by code_simp
  have vj: "take 20 (orderBy_desc_created_at (map fst
            (filter (\<lambda>(f, s). s_domain s = cq_school_domain ?j \<and> f_is_active f \<and> s_is_active s
               \<and> (case cq_category ?j of Some c \<Rightarrow> f_category f = c | None \<Rightarrow> True))
              (innerJoin acme_db)))) = []"
    by code_simp
  from mp [OF fi qi] vi have e3: "faqs (searchFaqs ?i acme_db) = [admission_faq]"
    by (rule trans)
  from mp [OF fj qj] vj have e4: "faqs (searchFaqs ?j acme_db) = []"
    by (rule trans)
  have l: "2 < length ''admission''" by simp
  from w have w': "list_all is_space_char [CHR '' '', CHR 0x09, CHR 0x0A]"
    by (simp only: list_all_iff)
  from s have s': "list_all (\<lambda>t. length t \<le> 2)
        (runs (\<lambda>c. \<not> is_space_char c) [] (toLowerCase ''to be or''))"
    by (simp only: list_all_iff)
  from a l w' e1 s' e2 e3 e4 show ?thesis by (intro conjI)
qed


section \<open>Creating and updating questions\<close>

lemma filter_id_map_update:
  assumes "\<And>r. f_id (g r) = f_id r"
  shows "filter (\<lambda>r. f_id r = i) (map (\<lambda>r. if f_id r = i then g r else r) rows) =
         map g (filter (\<lambda>r. f_id r = i) rows)"
  by (induction rows) (simp_all add: assms)

lemma filter_other_map_update:
  assumes "\<And>r. f_id (g r) = f_id r"
  shows "filter (\<lambda>r. f_id r \<noteq> i) (map (\<lambda>r. if f_id r = i then g r else r) rows) =
   filter (\<lambda>r. f_id r \<noteq> i) rows"
  by (induction rows) (simp_all add: assms)

lemma f_id_set_values [simp]: "f_id (set_values v r) = f_id r"
  by (simp add: set_values_def)

lemma getFaqById_Some_filter:
  "getFaqById i d = Some cur \<Longrightarrow> \<exists>rest. filter (\<lambda>f. f_id f = i) (faqsTable d) = cur # rest"
  by (auto simp: getFaqById_def split: list.splits)

lemma updateFaq_found:
  assumes cur: "getFaqById (uf_id input) d = Some cur"
    and v: "\<not> no_values (prepare_values input cur)"
  shows "updateFaq input d =
      (Inr (set_values (prepare_values input cur) cur),
       d\<lparr>faqsTable := map (\<lambda>r. if f_id r = uf_id input
                                 then set_values (prepare_values input cur) r else r)
                           (faqsTable d)\<rparr>)"
    and "getFaqById (uf_id input) (snd (updateFaq input d)) =
       Some (set_values (prepare_values input cur) cur)"
proof -
  from getFaqById_Some_filter [OF cur] obtain rest
    where f: "filter (\<lambda>f. f_id f = uf_id input) (faqsTable d) = cur # rest" ..
  have m: "filter (\<lambda>r. f_id r = uf_id input)
          (map (\<lambda>r. if f_id r = uf_id input
                    then set_values (prepare_values input cur) r else r) (faqsTable d)) =
        set_values (prepare_values input cur) cur
          # map (set_values (prepare_values input cur)) rest"
    by (simp add: filter_id_map_update f)
  show u: "updateFaq input d =
      (Inr (set_values (prepare_values input cur) cur),
       d\<lparr>faqsTable := map (\<lambda>r. if f_id r = uf_id input
                                 then set_values (prepare_values input cur) r else r)
                           (faqsTable d)\<rparr>)"
    unfolding updateFaq_def cur option.case Let_def
    using v m by simp
  show "getFaqById (uf_id input) (snd (updateFaq input d)) =
       Some (set_values (prepare_values input cur) cur)"
    unfolding u by (simp add: getFaqById_def m)
qed

lemma updateFaq_no_values:
  assumes cur: "getFaqById (uf_id input) d = Some cur"
    and v: "no_values (prepare_values input cur)"
  shows "updateFaq input d = (Inl NoValuesToSet, d)"
  using v unfolding updateFaq_def cur option.case Let_def
  by simp

lemma updateFaq_returns_row: "fst (updateFaq input d) \<noteq> Inl NoRowReturned"
proof (cases "getFaqById (uf_id input) d")
  case None
  then show ?thesis by (simp add: updateFaq_def)
next
  case (Some cur)
  show ?thesis
  proof (cases "no_values (prepare_values input cur)")
    case True
    from updateFaq_no_values [OF Some True] show ?thesis by simp
  next
    case False
    from updateFaq_found(1) [OF Some False] show ?thesis by simp
  qed
qed

lemma keywords_set_values:
  "f_keywords (set_values v r) = (case uv_keywords v of Some ks \<Rightarrow> ks | None \<Rightarrow> f_keywords r)"
  by (simp add: set_values_def)

lemma uv_keywords_prepare:
  "uv_keywords (prepare_values input cur) =
     (case uf_keywords input of
        Some ks \<Rightarrow> Some ks
      | None \<Rightarrow>
          if uf_question input \<noteq> None \<or> uf_answer input \<noteq> None then
            Some (generateKeywords (or_else (uf_question input) (f_question cur))
                                   (or_else (uf_answer input) (f_answer cur)))
          else None)"
  by (cases "uf_keywords input") (simp_all add: prepare_values_def Let_def)

lemma no_values_keywords:
  "no_values (prepare_values input cur) \<Longrightarrow>
     uf_keywords input = None \<and> uf_question input = None \<and> uf_answer input = None"
  by (auto simp: no_values_def prepare_values_def split: option.splits)

text \<open>
  C8. For every update of a question that exists (\<open>getFaqById\<close> finds \<open>cur\<close>), the
  row found under the id afterwards has these keywords: the supplied list, exactly as
  given, when keywords are supplied; otherwise, when the question or the answer is
  supplied, the keywords generated from the effective question and answer (the supplied
  text if it is not empty, else the current one); otherwise the keywords it had. When
  one of the three is supplied the update succeeds and returns that row.
\<close>

theorem updateFaq_keywords:
  assumes "getFaqById (uf_id input) d = Some cur"
  shows "\<exists>r. getFaqById (uf_id input) (snd (updateFaq input d)) = Some r
     \<and> f_keywords r =
         (case uf_keywords input of
            Some ks \<Rightarrow> ks
          | None \<Rightarrow>
              if uf_question input \<noteq> None \<or> uf_answer input \<noteq> None then
                generateKeywords (or_else (uf_question input) (f_question cur))
                                 (or_else (uf_answer input) (f_answer cur))
              else f_keywords cur)
     \<and> (uf_keywords input \<noteq> None \<or> uf_question input \<noteq> None \<or> uf_answer input \<noteq> None
          \<longrightarrow> fst (updateFaq input d) = Inr r)"
proof (cases "no_values (prepare_values input cur)")
  case True
  from updateFaq_no_values [OF assms True] assms no_values_keywords [OF True]
  show ?thesis by simp
next
  case False
  let ?r = "set_values (prepare_values input cur) cur"
  from updateFaq_found(1) [OF assms False] have r: "fst (updateFaq input d) = Inr ?r"
    by simp
  have g: "getFaqById (uf_id input) (snd (updateFaq input d)) = Some ?r"
    by (rule updateFaq_found(2) [OF assms False])
  have k: "f_keywords ?r =
         (case uf_keywords input of
            Some ks \<Rightarrow> ks
          | None \<Rightarrow>
              if uf_question input \<noteq> None \<or> uf_answer input \<noteq> None then
                generateKeywords (or_else (uf_question input) (f_question cur))
                                 (or_else (uf_answer input) (f_answer cur))
              else f_keywords cur)"
    by (auto simp: keywords_set_values uv_keywords_prepare split: option.splits)
  from r g k show ?thesis by blast
qed


theorem updateFaq_keywords_witness:
  "getFaqById 1 acme_db = Some admission_faq
   \<and> map_option f_keywords (getFaqById 1 (snd (updateFaq
        \<lparr>uf_id = 1, uf_category = None, uf_question = Some ''What financial aid is there?'',
         uf_answer = None, uf_keywords = None, uf_is_active = None\<rparr> acme_db))) =
       Some [''what'', ''financial'', ''aid'', ''there'', ''diploma'', ''and'', ''test'',
             ''scores'']
   \<and> map_option f_keywords (getFaqById 1 (snd (updateFaq
        \<lparr>uf_id = 1, uf_category = None, uf_question = Some ''What financial aid is there?'',
         uf_answer = None, uf_keywords = Some [''aid''], uf_is_active = None\<rparr> acme_db))) =
       Some [''aid'']
   \<and> map_option f_keywords (getFaqById 1 (snd (updateFaq
        \<lparr>uf_id = 1, uf_category = Some general_info, uf_question = None,
         uf_answer = None, uf_keywords = None, uf_is_active = None\<rparr> acme_db))) =
       Some [''admission'', ''requirements'', ''diploma'']"
proof -
  let ?a = "\<lparr>uf_id = 1, uf_category = None,
         uf_question = Some ''What financial aid is there?'',
         uf_answer = None, uf_keywords = None, uf_is_active = None\<rparr>"
  let ?b = "\<lparr>uf_id = 1, uf_category = None,
         uf_question = Some ''What financial aid is there?'',
         uf_answer = None, uf_keywords = Some [''aid''], uf_is_active = None\<rparr>"
  let ?c = "\<lparr>uf_id = 1, uf_category = Some general_info, uf_question = None,
         uf_answer = None, uf_keywords = None, uf_is_active = None\<rparr>"
  have g: "getFaqById 1 acme_db = Some admission_faq"
    by code_simp
  then have ga: "getFaqById (uf_id ?a) acme_db = Some admission_faq"
    and gb: "getFaqById (uf_id ?b) acme_db = Some admission_faq"
    and gc: "getFaqById (uf_id ?c) acme_db = Some admission_faq"
    by simp_all
  have k: "generateKeywords (or_else (Some ''What financial aid is there?'')
               (f_question admission_faq)) (or_else None (f_answer admission_faq)) =
       [''what'', ''financial'', ''aid'', ''there'', ''diploma'', ''and'', ''test'', ''scores'']"
    by code_simp
  have o: "f_keywords admission_faq = [''admission'', ''requirements'', ''diploma'']"
    by (simp add: admission_faq_def)
  from updateFaq_keywords [OF ga] k
  have a: "map_option f_keywords (getFaqById 1 (snd (updateFaq ?a acme_db))) =
       Some [''what'', ''financial'', ''aid'', ''there'', ''diploma'', ''and'', ''test'',
             ''scores'']"
    by auto
  from updateFaq_keywords [OF gb]
  have b: "map_option f_keywords (getFaqById 1 (snd (updateFaq ?b acme_db))) = Some [''aid'']"
    by auto
  from updateFaq_keywords [OF gc] o
  have c: "map_option f_keywords (getFaqById 1 (snd (updateFaq ?c acme_db))) =
       Some [''admission'', ''requirements'', ''diploma'']"
    by auto
  from g a b c show ?thesis by (intro conjI)
qed

text \<open>
  C9. For every question that exists, the update that supplies only \<open>is_active\<close> as
  false succeeds; the row it returns, which is the row found under the id afterwards, is
  the current row with \<open>is_active\<close> false: keywords, question, answer and category are
  unchanged. The schools and the rows with another id are unchanged.
\<close>

theorem updateFaq_only_is_active:
  assumes "getFaqById i d = Some cur"
  shows "\<exists>r d'. updateFaq \<lparr>uf_id = i, uf_category = None, uf_question = None, uf_answer = None,
                          uf_keywords = None, uf_is_active = Some False\<rparr> d = (Inr r, d')
     \<and> getFaqById i d' = Some r
     \<and> f_keywords r = f_keywords cur \<and> f_question r = f_question cur
     \<and> f_answer r = f_answer cur \<and> f_category r = f_category cur
     \<and> f_is_active r = False
     \<and> r = cur\<lparr>f_is_active := False\<rparr>
     \<and> schoolsTable d' = schoolsTable d
     \<and> filter (\<lambda>x. f_id x \<noteq> i) (faqsTable d') = filter (\<lambda>x. f_id x \<noteq> i) (faqsTable d)"
proof -
  let ?input = "\<lparr>uf_id = i, uf_category = None, uf_question = None, uf_answer = None,
                          uf_keywords = None, uf_is_active = Some False\<rparr>"
  let ?v = "prepare_values ?input cur"
  have c: "getFaqById (uf_id ?input) d = Some cur" using assms by simp
  have v: "\<not> no_values ?v" by (simp add: no_values_def prepare_values_def)
  have s: "set_values ?v x = x\<lparr>f_is_active := False\<rparr>" for x
    by (simp add: set_values_def prepare_values_def)
  from updateFaq_found(1) [OF c v]
  have u: "updateFaq ?input d =
      (Inr (cur\<lparr>f_is_active := False\<rparr>),
       d\<lparr>faqsTable := map (\<lambda>r. if f_id r = i then r\<lparr>f_is_active := False\<rparr> else r)
                           (faqsTable d)\<rparr>)"
    by (simp add: s)
  from updateFaq_found(2) [OF c v]
  have g: "getFaqById i (d\<lparr>faqsTable := map (\<lambda>r. if f_id r = i then r\<lparr>f_is_active := False\<rparr> else r)
                           (faqsTable d)\<rparr>) = Some (cur\<lparr>f_is_active := False\<rparr>)"
    by (simp add: u s)
  have o: "filter (\<lambda>x. f_id x \<noteq> i)
         (map (\<lambda>r. if f_id r = i then r\<lparr>f_is_active := False\<rparr> else r) (faqsTable d)) =
       filter (\<lambda>x. f_id x \<noteq> i) (faqsTable d)"
    by (rule filter_other_map_update) simp
  from u g o show ?thesis by simp
qed

text \<open>
  C10. Every row that \<open>createFaq\<close> returns, called directly or through the router's
  \<open>faqs.create\<close> (whatever the request carries, an \<open>is_active\<close> key included), has
  \<open>is_active\<close> true and is the row appended to the table; and \<open>createFaq\<close> succeeds
  whenever the school of the input exists.
\<close>

theorem createFaq_is_active:
  "(createFaq input createdBy now d = (Inr r, d') \<longrightarrow>
       f_is_active r \<and> faqsTable d' = faqsTable d @ [r])
   \<and> (faqs_create rq now d = (Inr r, d') \<longrightarrow>
       f_is_active r \<and> faqsTable d' = faqsTable d @ [r])
   \<and> ((\<exists>s \<in> set (schoolsTable d). s_id s = cf_school_id input) \<longrightarrow>
       (\<exists>r d'. createFaq input createdBy now d = (Inr r, d')))"
proof -
  have a: "f_is_active r \<and> faqsTable d' = faqsTable d @ [r]"
    if "createFaq input createdBy now d = (Inr r, d')" for input createdBy
    using that by (auto simp: createFaq_def Let_def split: if_splits)
  have b: "\<exists>r d'. createFaq input createdBy now d = (Inr r, d')"
    if "\<exists>s \<in> set (schoolsTable d). s_id s = cf_school_id input"
  proof -
    from that have "filter (\<lambda>s. s_id s = cf_school_id input) (schoolsTable d) \<noteq> []"
      by (auto simp: filter_empty_conv)
    then show ?thesis by (simp add: createFaq_def Let_def)
  qed
  have c: "f_is_active r \<and> faqsTable d' = faqsTable d @ [r]"
    if "faqs_create rq now d = (Inr r, d')"
    using that a by (auto simp: faqs_create_def split: sum.splits)
  from a b c show ?thesis by blast
qed


theorem updateFaq_only_is_active_witness:
  "getFaqById 1 acme_db = Some admission_faq
   \<and> updateFaq \<lparr>uf_id = 1, uf_category = None, uf_question = None, uf_answer = None,
                 uf_keywords = None, uf_is_active = Some False\<rparr> acme_db =
       (Inr (admission_faq\<lparr>f_is_active := False\<rparr>),
        \<lparr>schoolsTable = [acme], faqsTable = [admission_faq\<lparr>f_is_active := False\<rparr>],
         faqs_id_seq = 2\<rparr>)
   \<and> f_keywords (admission_faq\<lparr>f_is_active := False\<rparr>) =
       [''admission'', ''requirements'', ''diploma'']"
proof -
  have g: "getFaqById 1 acme_db = Some admission_faq"
    by code_simp
  have e: "snd (updateFaq \<lparr>uf_id = 1, uf_category = None, uf_question = None, uf_answer = None,
                 uf_keywords = None, uf_is_active = Some False\<rparr> acme_db) =
        \<lparr>schoolsTable = [acme], faqsTable = [admission_faq\<lparr>f_is_active := False\<rparr>],
         faqs_id_seq = 2\<rparr>"
    by code_simp
  have k: "f_keywords (admission_faq\<lparr>f_is_active := False\<rparr>) =
       [''admission'', ''requirements'', ''diploma'']"
    by (simp add: admission_faq_def)
  from updateFaq_only_is_active [OF g] e
  have "updateFaq \<lparr>uf_id = 1, uf_category = None, uf_question = None, uf_answer = None,
                 uf_keywords = None, uf_is_active = Some False\<rparr> acme_db =
       (Inr (admission_faq\<lparr>f_is_active := False\<rparr>),
        \<lparr>schoolsTable = [acme], faqsTable = [admission_faq\<lparr>f_is_active := False\<rparr>],
         faqs_id_seq = 2\<rparr>)"
    by auto
  with g k show ?thesis by (intro conjI)
qed

theorem createFaq_is_active_witness:
  "createFaq dining_input 1 20 acme_db =
     (Inr dining_faq,
      \<lparr>schoolsTable = [acme], faqsTable = [admission_faq, dining_faq], faqs_id_seq = 3\<rparr>)
   \<and> faqs_create
        \<lparr>cr_school_id = 1, cr_category = ''campus_life'',
         cr_question = ''What dining options exist on campus?'',
         cr_answer = ''Multiple cafeterias serve various cuisines.'',
         cr_keywords = None, cr_is_active = Some False\<rparr> 20 acme_db =
     (Inr dining_faq,
      \<lparr>schoolsTable = [acme], faqsTable = [admission_faq, dining_faq], faqs_id_seq = 3\<rparr>)
   \<and> f_is_active dining_faq
   \<and> (\<exists>s \<in> set (schoolsTable acme_db). s_id s = cf_school_id dining_input)"
proof -
  let ?rq = "\<lparr>cr_school_id = 1, cr_category = ''campus_life'',
         cr_question = ''What dining options exist on campus?'',
         cr_answer = ''Multiple cafeterias serve various cuisines.'',
         cr_keywords = None, cr_is_active = Some False\<rparr>"
  let ?d = "\<lparr>schoolsTable = [acme], faqsTable = [admission_faq, dining_faq],
           faqs_id_seq = 3\<rparr>"
  have c: "createFaq dining_input 1 20 acme_db = (Inr dining_faq, ?d)"
    by code_simp
  have q: "faqs_create ?rq 20 acme_db = (Inr dining_faq, ?d)"
    by code_simp
  have s: "\<exists>s \<in> set (schoolsTable acme_db). s_id s = cf_school_id dining_input"
    by (simp add: acme_db_def acme_def dining_input_def)
  from q createFaq_is_active [of dining_input 1 20 acme_db dining_faq ?d ?rq]
  have "f_is_active dining_faq" by blast
  with c q s show ?thesis by (intro conjI)
qed

section \<open>Validation\<close>







section \<open>Stored keywords\<close>

lemma prefix_takeWhile_length:
  "prefix w s \<Longrightarrow> \<forall>c \<in> set w. P c \<Longrightarrow> length w \<le> length (takeWhile P s)"
proof (induction w arbitrary: s)
  case Nil
  then show ?case by simp
next
  case (Cons a w)
  then obtain s' where "s = a # s'" and "prefix w s'"
    by (auto simp: prefix_def)
  with Cons show ?case by simp
qed

lemma runs_long:
  assumes "3 \<le> length cur + length (takeWhile P s)
     \<or> (\<exists>w. sublist w s \<and> 3 \<le> length w \<and> (\<forall>c \<in> set w. P c))"
  shows "\<exists>r \<in> set (runs P cur s). 3 \<le> length r"
  using assms
proof (induction s arbitrary: cur)
  case Nil
  then show ?case by auto
next
  case (Cons c s)
  show ?case
  proof (cases "P c")
    case True
    have "3 \<le> length (cur @ [c]) + length (takeWhile P s)
       \<or> (\<exists>w. sublist w s \<and> 3 \<le> length w \<and> (\<forall>c \<in> set w. P c))"
      using Cons.prems
    proof
      assume "3 \<le> length cur + length (takeWhile P (c # s))"
      with True show ?thesis by simp
    next
      assume "\<exists>w. sublist w (c # s) \<and> 3 \<le> length w \<and> (\<forall>c \<in> set w. P c)"
      then obtain w where w: "sublist w (c # s)" "3 \<le> length w" "\<forall>c \<in> set w. P c"
        by blast
      from w(1) consider "prefix w (c # s)" | "sublist w s"
        by (auto simp: sublist_Cons_right)
      then show ?thesis
      proof cases
        case 1
        from prefix_takeWhile_length [OF 1 w(3)] w(2) True show ?thesis by simp
      next
        case 2
        with w show ?thesis by blast
      qed
    qed
    then have "\<exists>r \<in> set (runs P (cur @ [c]) s). 3 \<le> length r" by (rule Cons.IH)
    with True show ?thesis by simp
  next
    case False
    from Cons.prems show ?thesis
    proof
      assume "3 \<le> length cur + length (takeWhile P (c # s))"
      with False show ?thesis by auto
    next
      assume "\<exists>w. sublist w (c # s) \<and> 3 \<le> length w \<and> (\<forall>c \<in> set w. P c)"
      then obtain w where w: "sublist w (c # s)" "3 \<le> length w" "\<forall>c \<in> set w. P c"
        by blast
      from w(2) obtain a w' where a: "w = a # w'" by (cases w) auto
      from w(1) consider "prefix w (c # s)" | "sublist w s"
        by (auto simp: sublist_Cons_right)
      then have "sublist w s"
      proof cases
        case 1
        with a w(3) False show ?thesis by simp
      next
        case 2
        then show ?thesis .
      qed
      with w have "\<exists>r \<in> set (runs P [] s). 3 \<le> length r"
        by (intro Cons.IH) blast
      with False show ?thesis by auto
    qed
  qed
qed

lemma generateKeywords_nonempty_words:
  "generateKeywords q a \<noteq> [] \<longleftrightarrow>
     (\<exists>w. sublist w (toLowerCase (q @ '' '' @ a)) \<and> 3 \<le> length w
          \<and> (\<forall>c \<in> set w. is_word_char c))"
proof
  assume "generateKeywords q a \<noteq> []"
  then obtain w where w: "w \<in> set (match_words (toLowerCase (q @ '' '' @ a)))"
    unfolding generateKeywords_nonempty_iff by (meson last_in_set)
  then have "w \<in> set (runs is_word_char [] (toLowerCase (q @ '' '' @ a)))"
    by (simp add: match_words_def)
  from runs_all [OF this] have "\<forall>c \<in> set w. is_word_char c" by simp
  with match_words_sublist [OF w] match_words_length [OF w]
  show "\<exists>w. sublist w (toLowerCase (q @ '' '' @ a)) \<and> 3 \<le> length w
          \<and> (\<forall>c \<in> set w. is_word_char c)"
    by blast
next
  assume "\<exists>w. sublist w (toLowerCase (q @ '' '' @ a)) \<and> 3 \<le> length w
          \<and> (\<forall>c \<in> set w. is_word_char c)"
  then have "\<exists>r \<in> set (runs is_word_char [] (toLowerCase (q @ '' '' @ a))). 3 \<le> length r"
    by (intro runs_long) blast
  then have "match_words (toLowerCase (q @ '' '' @ a)) \<noteq> []"
    by (auto simp: match_words_def filter_empty_conv)
  then show "generateKeywords q a \<noteq> []"
    by (simp add: generateKeywords_nonempty_iff)
qed

lemma createFaq_keywords:
  assumes "createFaq input createdBy now d = (Inr r, d')"
  shows "f_keywords r =
     (case cf_keywords input of
        Some ks \<Rightarrow> if ks \<noteq> [] then ks
                   else generateKeywords (cf_question input) (cf_answer input)
      | None \<Rightarrow> generateKeywords (cf_question input) (cf_answer input))"
  using assms by (auto simp: createFaq_def Let_def split: if_splits option.splits)

text \<open>
  C4, as amended. After a successful \<open>createFaq\<close> the keywords of the new row are not
  empty exactly when the caller supplied a list that is not empty or the lower-cased text
  of question, space, answer holds three word characters in a row. After a successful
  \<open>updateFaq\<close> of an existing row the row found under the id is the returned one, and its
  keywords are not empty exactly when: the supplied list is not empty, if keywords are
  supplied; else the lower-cased text of the effective question, space, effective answer
  holds three word characters in a row, if the question or the answer is supplied; else
  the keywords of the row were not empty before.
\<close>

theorem keywords_nonempty_amended:
  "(createFaq input createdBy now d = (Inr r, d') \<longrightarrow>
      (f_keywords r \<noteq> [] \<longleftrightarrow>
         (\<exists>ks. cf_keywords input = Some ks \<and> ks \<noteq> [])
         \<or> (\<exists>w. sublist w (toLowerCase (cf_question input @ '' '' @ cf_answer input))
                \<and> 3 \<le> length w \<and> (\<forall>c \<in> set w. is_word_char c))))
   \<and> (getFaqById (uf_id u) d = Some cur \<and> updateFaq u d = (Inr r', d'') \<longrightarrow>
      getFaqById (uf_id u) d'' = Some r'
      \<and> (f_keywords r' \<noteq> [] \<longleftrightarrow>
           (case uf_keywords u of
              Some ks \<Rightarrow> ks \<noteq> []
            | None \<Rightarrow>
                if uf_question u \<noteq> None \<or> uf_answer u \<noteq> None then
                  (\<exists>w. sublist w (toLowerCase (or_else (uf_question u) (f_question cur)
                                     @ '' '' @ or_else (uf_answer u) (f_answer cur)))
                       \<and> 3 \<le> length w \<and> (\<forall>c \<in> set w. is_word_char c))
                else f_keywords cur \<noteq> [])))"
proof (intro conjI impI)
  assume "createFaq input createdBy now d = (Inr r, d')"
  from createFaq_keywords [OF this]
  show "f_keywords r \<noteq> [] \<longleftrightarrow>
         (\<exists>ks. cf_keywords input = Some ks \<and> ks \<noteq> [])
         \<or> (\<exists>w. sublist w (toLowerCase (cf_question input @ '' '' @ cf_answer input))
                \<and> 3 \<le> length w \<and> (\<forall>c \<in> set w. is_word_char c))"
    unfolding generateKeywords_nonempty_words [symmetric]
    by (auto split: option.splits if_splits)
next
  assume a: "getFaqById (uf_id u) d = Some cur \<and> updateFaq u d = (Inr r', d'')"
  then have cur: "getFaqById (uf_id u) d = Some cur" and upd: "updateFaq u d = (Inr r', d'')"
    by simp_all
  have nv: "\<not> no_values (prepare_values u cur)"
    using updateFaq_no_values [OF cur] upd by auto
  from updateFaq_found [OF cur nv] upd
  have r': "r' = set_values (prepare_values u cur) cur"
    and g: "getFaqById (uf_id u) d'' = Some r'"
    by simp_all
  from g show "getFaqById (uf_id u) d'' = Some r'" .
  show "f_keywords r' \<noteq> [] \<longleftrightarrow>
           (case uf_keywords u of
              Some ks \<Rightarrow> ks \<noteq> []
            | None \<Rightarrow>
                if uf_question u \<noteq> None \<or> uf_answer u \<noteq> None then
                  (\<exists>w. sublist w (toLowerCase (or_else (uf_question u) (f_question cur)
                                     @ '' '' @ or_else (uf_answer u) (f_answer cur)))
                       \<and> 3 \<le> length w \<and> (\<forall>c \<in> set w. is_word_char c))
                else f_keywords cur \<noteq> [])"
    unfolding generateKeywords_nonempty_words [symmetric] r'
    by (auto simp: keywords_set_values uv_keywords_prepare split: option.splits)
qed

text \<open>
  C4 as stated fails: a request to create a question whose texts hold no word of three
  characters parses, succeeds and stores an empty list of keywords.
\<close>

theorem keywords_nonempty_counterexample:
  "faqs_create \<lparr>cr_school_id = 1, cr_category = ''campus_life'', cr_question = ''Is it ok?'',
                cr_answer = ''No.'', cr_keywords = None, cr_is_active = None\<rparr> 20 acme_db =
     (Inr \<lparr>f_id = 2, f_school_id = 1, f_category = campus_life, f_question = ''Is it ok?'',
           f_answer = ''No.'', f_keywords = [], f_is_active = True, f_created_by = 1,
           f_created_at = 20, f_updated_at = 20\<rparr>,
      \<lparr>schoolsTable = [acme],
       faqsTable = [admission_faq,
         \<lparr>f_id = 2, f_school_id = 1, f_category = campus_life, f_question = ''Is it ok?'',
          f_answer = ''No.'', f_keywords = [], f_is_active = True, f_created_by = 1,
          f_created_at = 20, f_updated_at = 20\<rparr>],
       faqs_id_seq = 3\<rparr>)"
  by code_simp


theorem keywords_nonempty_amended_witness:
  "createFaq dining_input 1 20 acme_db =
     (Inr dining_faq,
      \<lparr>schoolsTable = [acme], faqsTable = [admission_faq, dining_faq], faqs_id_seq = 3\<rparr>)
   \<and> sublist ''dining'' (toLowerCase (cf_question dining_input @ '' '' @ cf_answer dining_input))
   \<and> f_keywords dining_faq \<noteq> []
   \<and> getFaqById 1 acme_db = Some admission_faq
   \<and> updateFaq \<lparr>uf_id = 1, uf_category = None, uf_question = None, uf_answer = None,
                 uf_keywords = None, uf_is_active = Some False\<rparr> acme_db =
       (Inr (admission_faq\<lparr>f_is_active := False\<rparr>),
        \<lparr>schoolsTable = [acme], faqsTable = [admission_faq\<lparr>f_is_active := False\<rparr>],
         faqs_id_seq = 2\<rparr>)
   \<and> f_keywords (admission_faq\<lparr>f_is_active := False\<rparr>) \<noteq> []"
proof -
  let ?u = "\<lparr>uf_id = 1, uf_category = None, uf_question = None, uf_answer = None,
                 uf_keywords = None, uf_is_active = Some False\<rparr>"
  let ?d2 = "\<lparr>schoolsTable = [acme], faqsTable = [admission_faq, dining_faq],
            faqs_id_seq = 3\<rparr>"
  let ?d3 = "\<lparr>schoolsTable = [acme], faqsTable = [admission_faq\<lparr>f_is_active := False\<rparr>],
         faqs_id_seq = 2\<rparr>"
  note t = keywords_nonempty_amended [where input = dining_input and createdBy = 1
      and now = 20 and d = acme_db and r = dining_faq and d' = ?d2 and u = ?u
      and cur = admission_faq and r' = "admission_faq\<lparr>f_is_active := False\<rparr>" and d'' = ?d3]
  have c: "createFaq dining_input 1 20 acme_db = (Inr dining_faq, ?d2)"
    by code_simp
  have s: "sublist ''dining''
      (toLowerCase (cf_question dining_input @ '' '' @ cf_answer dining_input))"
    by code_simp
  have w: "3 \<le> length ''dining'' \<and> (\<forall>c \<in> set ''dining''. is_word_char c)"
    by code_simp
  from t c s w have k: "f_keywords dining_faq \<noteq> []"
    by blast
  have g: "getFaqById 1 acme_db = Some admission_faq"
    by code_simp
  have e: "updateFaq ?u acme_db = (Inr (admission_faq\<lparr>f_is_active := False\<rparr>), ?d3)"
    by code_simp
  have o: "f_keywords admission_faq \<noteq> []"
    by (simp add: admission_faq_def)
  from g e have "getFaqById (uf_id ?u) acme_db = Some admission_faq
      \<and> updateFaq ?u acme_db = (Inr (admission_faq\<lparr>f_is_active := False\<rparr>), ?d3)"
    by simp
  with t o have k': "f_keywords (admission_faq\<lparr>f_is_active := False\<rparr>) \<noteq> []"
    by simp
  from c s k g e k' show ?thesis by (intro conjI)
qed


end
